theory Spec2Isabelle
  imports Main
begin

section \<open>Text primitives of the Python runtime\<close>

text \<open>
  A Python \<open>str\<close> is the list of its Unicode code points. The literals of the source
  are written with \<open>lit\<close>, which gives the code points of an ASCII text; the symbols
  outside ASCII in the fixed replies are written as their code points. The names of
  form fields, session keys, templates and endpoints, all ASCII in this application,
  stay of type \<open>string\<close>.
\<close>

type_synonym str = "nat list"

definition lit :: "string \<Rightarrow> str" where
  "lit s = map of_char s"

text \<open>
  The whitespace test behind \<open>strip()\<close>, \<open>split()\<close> and the pattern \<open>\s\<close> of a \<open>str\<close>
  pattern: the code points that \<open>str.isspace\<close> accepts.
\<close>

definition isspace :: "nat \<Rightarrow> bool" where
  "isspace c =
     ((0x09 \<le> c \<and> c \<le> 0x0D) \<or> (0x1C \<le> c \<and> c \<le> 0x20) \<or> c = 0x85 \<or> c = 0xA0
      \<or> c = 0x1680 \<or> (0x2000 \<le> c \<and> c \<le> 0x200A) \<or> c = 0x2028 \<or> c = 0x2029
      \<or> c = 0x202F \<or> c = 0x205F \<or> c = 0x3000)"

text \<open>\<open>s.strip()\<close>: leading and trailing whitespace removed.\<close>

definition strip :: "str \<Rightarrow> str" where
  "strip s = rev (dropWhile isspace (rev (dropWhile isspace s)))"

text \<open>
  \<open>str.lower\<close> follows the case mappings of the Unicode character database, which is
  not part of the source: wherever the application lowercases a text, the function that
  does it is a parameter, of this type.
\<close>

type_synonym lowercase = "str \<Rightarrow> str"

text \<open>
  An instance for evaluating the model on ASCII messages, where it agrees with
  \<open>str.lower\<close>: the letters \<open>A\<close> to \<open>Z\<close> are mapped, every other code point is kept.
\<close>

definition ascii_lower :: lowercase where
  "ascii_lower s = map (\<lambda>c. if 65 \<le> c \<and> c \<le> 90 then c + 32 else c) s"

definition starts_with :: "str \<Rightarrow> str \<Rightarrow> bool" where
  "starts_with sub s = (take (length sub) s = sub)"

text \<open>\<open>s.find(sub)\<close>: the index of the first occurrence of \<open>sub\<close>, \<open>None\<close> for Python's -1.\<close>

fun find_sub :: "str \<Rightarrow> str \<Rightarrow> nat option" where
  "find_sub sub [] = (if sub = [] then Some 0 else None)"
| "find_sub sub (c # cs) =
     (if starts_with sub (c # cs) then Some 0 else map_option Suc (find_sub sub cs))"

text \<open>\<open>sub in s\<close>.\<close>

definition contains :: "str \<Rightarrow> str \<Rightarrow> bool" where
  "contains sub s = (find_sub sub s \<noteq> None)"

text \<open>\<open>s.split(sep, 1)\<close>: split at the first occurrence of \<open>sep\<close> only.\<close>

definition split_once :: "str \<Rightarrow> str \<Rightarrow> str list" where
  "split_once sep s =
     (case find_sub sep s of
        None \<Rightarrow> [s]
      | Some i \<Rightarrow> [take i s, drop (i + length sep) s])"

text \<open>\<open>re.sub(r"\s+", " ", s)\<close>: every maximal run of whitespace becomes one space.\<close>

function collapse_ws :: "str \<Rightarrow> str" where
  "collapse_ws [] = []"
| "collapse_ws (c # cs) =
     (if isspace c then lit '' '' @ collapse_ws (dropWhile isspace cs)
      else c # collapse_ws cs)"
  by pat_completeness auto
termination
  by (relation "measure length") (auto simp: le_imp_less_Suc length_dropWhile_le)

text \<open>\<open>s.split()\<close>: the maximal runs of characters that are not whitespace.\<close>

function split_ws :: "str \<Rightarrow> str list" where
  "split_ws [] = []"
| "split_ws (c # cs) =
     (if isspace c then split_ws cs
      else (c # takeWhile (\<lambda>x. \<not> isspace x) cs)
             # split_ws (dropWhile (\<lambda>x. \<not> isspace x) cs))"
  by pat_completeness auto
termination
  by (relation "measure length") (auto simp: le_imp_less_Suc length_dropWhile_le)

text \<open>\<open>sep.join(ws)\<close>.\<close>

fun join :: "str \<Rightarrow> str list \<Rightarrow> str" where
  "join sep [] = []"
| "join sep [w] = w"
| "join sep (w # v # ws) = w @ sep @ join sep (v # ws)"

section \<open>The credential store\<close>

text \<open>
  A row of the table behind class \<open>User\<close>. The column \<open>id\<close> is the integer primary key;
  SQLite does not enforce the declared lengths of the two string columns.
\<close>

record user =
  id' :: int
  username :: str
  password :: str

text \<open>The table, rows in insertion order.\<close>

type_synonym database = "user list"

text \<open>\<open>User.query.filter_by(username=u).first()\<close>: exact, case-sensitive comparison.\<close>

definition first_by_username :: "str \<Rightarrow> database \<Rightarrow> user option" where
  "first_by_username u db = find (\<lambda>r. username r = u) db"

text \<open>
  The key SQLite assigns to a new row: 1 in an empty table, otherwise one more than
  the largest key. When the largest key is the largest 64-bit integer the engine
  searches at random for a positive key that is not in use; \<open>pick\<close> is what that search
  arrives at, and the insert fails (\<open>None\<close>) when it is not such a key.
\<close>

definition next_id :: "int \<Rightarrow> database \<Rightarrow> int option" where
  "next_id pick db =
     (if db = [] then Some 1
      else
        let largest = Max (set (map id' db)) in
        if largest < 9223372036854775807 then Some (largest + 1)
        else if 1 \<le> pick \<and> pick \<le> 9223372036854775807 \<and> pick \<notin> set (map id' db)
        then Some pick
        else None)"

text \<open>
  \<open>db.session.add(user); db.session.commit()\<close>. The column \<open>username\<close> is declared
  unique, so the commit raises \<open>IntegrityError\<close> on a second row with the same name;
  \<open>None\<close> stands for that exception and for the failure to find a key.
\<close>

definition db_add :: "str \<Rightarrow> str \<Rightarrow> int \<Rightarrow> database \<Rightarrow> database option" where
  "db_add u hashed_pw pick db =
     (if first_by_username u db \<noteq> None then None
      else
        (case next_id pick db of
           None \<Rightarrow> None
         | Some i \<Rightarrow> Some (db @ [\<lparr>id' = i, username = u, password = hashed_pw\<rparr>])))"

text \<open>
  The two functions of \<open>werkzeug.security\<close> are parameters of the model.
  \<open>generate_password_hash\<close> draws a random salt, which is its first argument here;
  \<open>check_password_hash\<close> takes the stored hash and a password.
\<close>

record hasher =
  generate_password_hash :: "str \<Rightarrow> str \<Rightarrow> str"
  check_password_hash :: "str \<Rightarrow> str \<Rightarrow> bool"

text \<open>
  An instance for evaluating the model on concrete requests. The methods of the library
  (scrypt, PBKDF2) hand the password to HMAC as its key, and HMAC fills a key shorter
  than its block of 64 bytes with zero bytes: below that size, a password and the same
  password followed by zero characters have the same hash. \<open>hmac_key\<close> drops the
  trailing zero characters; the instance stores the salt and this key in clear, where
  the library stores a digest of them.
\<close>

definition hmac_key :: "str \<Rightarrow> str" where
  "hmac_key pw = rev (dropWhile (\<lambda>c. c = 0) (rev pw))"

definition hmac_hasher :: hasher where
  "hmac_hasher =
     \<lparr>generate_password_hash =
        (\<lambda>salt pw. replicate (length salt) 115 @ lit ''$'' @ salt @ hmac_key pw),
      check_password_hash =
        (\<lambda>pwhash pw.
           let n = length (takeWhile (\<lambda>c. c = 115) pwhash)
           in n + 1 + n \<le> length pwhash \<and> drop (n + 1 + n) pwhash = hmac_key pw)\<rparr>"

section \<open>Requests, sessions and responses\<close>

datatype http_verb = GET | HEAD | POST

type_synonym form_data = "string \<rightharpoonup> str"

record request =
  http_method :: http_verb
  form :: form_data

text \<open>The session is a dictionary; the only key the application uses is \<open>user_id\<close>.\<close>

type_synonym session = "string \<rightharpoonup> int"

text \<open>
  What a view returns: a text body with its status (a bare string is status 200), a
  redirect to an endpoint, a rendered template, the 400 response that Werkzeug makes of
  the \<open>KeyError\<close> of \<open>request.form[key]\<close> on a missing field, or the 500 response of an
  exception nobody catches.
\<close>

datatype response =
    Body str nat
  | Redirect string
  | Render string
  | BadRequestKeyError string
  | InternalServerError

section \<open>Routes of the account pages\<close>

definition home :: "session \<Rightarrow> response" where
  "home sess = (if sess ''user_id'' \<noteq> None then Render ''index.html'' else Redirect ''login'')"

text \<open>
  \<open>salt\<close> and \<open>pick\<close> are what the hash library and the database engine draw at random
  while the request is served.
\<close>

definition signup ::
  "hasher \<Rightarrow> str \<Rightarrow> int \<Rightarrow> request \<Rightarrow> database \<Rightarrow> response \<times> database" where
  "signup h salt pick req db =
     (if http_method req = POST then
        (case form req ''username'' of
           None \<Rightarrow> (BadRequestKeyError ''username'', db)
         | Some raw_username \<Rightarrow>
             let uname = strip raw_username in
             (case form req ''password'' of
                None \<Rightarrow> (BadRequestKeyError ''password'', db)
              | Some pw \<Rightarrow>
                  if first_by_username uname db \<noteq> None
                  then (Body (lit ''Username already exists!'') 400, db)
                  else
                    let hashed_pw = generate_password_hash h salt pw in
                    (case db_add uname hashed_pw pick db of
                       None \<Rightarrow> (InternalServerError, db)
                     | Some db' \<Rightarrow> (Redirect ''login'', db'))))
      else (Render ''register.html'', db))"

definition login :: "hasher \<Rightarrow> request \<Rightarrow> session \<Rightarrow> database \<Rightarrow> response \<times> session" where
  "login h req sess db =
     (if http_method req = POST then
        (case form req ''username'' of
           None \<Rightarrow> (BadRequestKeyError ''username'', sess)
         | Some raw_username \<Rightarrow>
             let uname = strip raw_username in
             (case form req ''password'' of
                None \<Rightarrow> (BadRequestKeyError ''password'', sess)
              | Some pw \<Rightarrow>
                  (case first_by_username uname db of
                     None \<Rightarrow> (Body (lit ''Invalid username or password.'') 401, sess)
                   | Some usr \<Rightarrow>
                       if check_password_hash h (password usr) pw
                       then (Redirect ''home'', sess(''user_id'' \<mapsto> id' usr))
                       else (Body (lit ''Invalid username or password.'') 401, sess))))
      else (Render ''login.html'', sess))"

definition logout :: "session \<Rightarrow> response \<times> session" where
  "logout sess = (Redirect ''login'', Map.empty)"

text \<open>A run of signup requests, each with what is drawn for it, from left to right.\<close>

fun signups :: "hasher \<Rightarrow> (str \<times> int \<times> request) list \<Rightarrow> database \<Rightarrow> database" where
  "signups h [] db = db"
| "signups h ((salt, pick, req) # rest) db = signups h rest (snd (signup h salt pick req db))"

section \<open>The chat endpoint\<close>

text \<open>
  The tokenizer and the language model are loaded once at startup; each global is
  \<open>None\<close> when loading failed. Generation is a function from the token ids of the prompt
  to the token ids of the first returned sequence. Exceptions raised inside the two
  libraries are not modelled.
\<close>

record gpt2_tokenizer =
  encode :: "str \<Rightarrow> nat list"
  decode :: "nat list \<Rightarrow> str"

record globals =
  tokenizer :: "gpt2_tokenizer option"
  model :: "(nat list \<Rightarrow> nat list) option"

definition build_prompt :: "str \<Rightarrow> str" where
  "build_prompt user_input = lit ''User: '' @ user_input @ lit ''\<newline>Serene:''"

definition crisis_words :: "str list" where
  "crisis_words =
     [lit ''suicide'', lit ''kill myself'', lit ''end my life'', lit ''want to die'',
      lit ''hurt myself'']"

text \<open>\<open>any(word in user_message.lower() for word in crisis_words)\<close>.\<close>

definition contains_crisis_language :: "lowercase \<Rightarrow> str \<Rightarrow> bool" where
  "contains_crisis_language lower user_message =
     list_ex (\<lambda>word. contains word (lower user_message)) crisis_words"

definition please_type_message :: str where
  "please_type_message = lit ''Please type something '' @ [0x1F4AC]"

definition safety_message :: str where
  "safety_message =
     [0x1F338] @ lit '' I'm really sorry you're feeling this way. ''
     @ lit ''If you're in immediate danger, please call emergency services (112 in India). ''
     @ lit ''You don'' @ [0x2019] @ lit ''t have to face this alone ''
     @ [0x2014] @ lit '' I'' @ [0x2019] @ lit ''m here with you.''"

definition unavailable_message :: str where
  "unavailable_message = [0x26A0, 0xFE0F] @ lit '' Serene model unavailable.''"

text \<open>
  Lines 153 and 154: \<open>reply.split("Serene:", 1)[1].strip()\<close> when the label occurs.
  \<open>None\<close> stands for the \<open>IndexError\<close> of the subscript.
\<close>

definition extract_reply :: "str \<Rightarrow> str option" where
  "extract_reply reply =
     (if contains (lit ''Serene:'') reply then
        (case split_once (lit ''Serene:'') reply of
           _ # after # _ \<Rightarrow> Some (strip after)
         | _ \<Rightarrow> None)
      else Some reply)"

text \<open>Lines 157 to 162: whitespace clean-up and the limit of 60 words.\<close>

definition format_reply :: "str \<Rightarrow> str" where
  "format_reply reply0 =
     (let reply = collapse_ws reply0;
          ws = split_ws reply
      in if length ws > 60 then join (lit '' '') (take 60 ws) @ lit ''...'' else reply)"

text \<open>
  The steps of the handler, in the order it runs them. The handler returns the list of
  the steps it has run beside its response; \<open>Generate\<close> carries the prompt that was sent
  to the model.
\<close>

datatype step =
    SessionCheck
  | ReadMessage
  | EmptyCheck
  | CrisisCheck
  | ModelCheck
  | Generate str
  | ExtractReply
  | FormatReply

definition get_bot_response ::
  "lowercase \<Rightarrow> globals \<Rightarrow> session \<Rightarrow> form_data \<Rightarrow> response \<times> step list" where
  "get_bot_response lower g sess frm =
     (if sess ''user_id'' = None
      then (Body (lit ''Please log in to chat.'') 401, [SessionCheck])
      else
        let user_message = strip (case frm ''msg'' of None \<Rightarrow> [] | Some m \<Rightarrow> m) in
        if user_message = []
        then (Body please_type_message 200, [SessionCheck, ReadMessage, EmptyCheck])
        else if contains_crisis_language lower user_message
        then (Body safety_message 200, [SessionCheck, ReadMessage, EmptyCheck, CrisisCheck])
        else
          (case (model g, tokenizer g) of
             (Some generate, Some tok) \<Rightarrow>
               let prompt = build_prompt user_message;
                   inputs = encode tok prompt;
                   output = generate inputs;
                   reply = decode tok output
               in (case extract_reply reply of
                     None \<Rightarrow>
                       (InternalServerError,
                        [SessionCheck, ReadMessage, EmptyCheck, CrisisCheck, ModelCheck,
                         Generate prompt, ExtractReply])
                   | Some reply' \<Rightarrow>
                       (Body (format_reply reply') 200,
                        [SessionCheck, ReadMessage, EmptyCheck, CrisisCheck, ModelCheck,
                         Generate prompt, ExtractReply, FormatReply]))
           | _ \<Rightarrow>
               (Body unavailable_message 200,
                [SessionCheck, ReadMessage, EmptyCheck, CrisisCheck, ModelCheck])))"

section \<open>Substring search\<close>

lemma starts_with_iff: "starts_with sub s \<longleftrightarrow> (\<exists>post. s = sub @ post)"
  unfolding starts_with_def
  by (metis append_eq_conv_conj append_take_drop_id)

lemma contains_Nil: "contains sub [] \<longleftrightarrow> sub = []"
  by (simp add: contains_def)

lemma contains_Cons: "contains sub (c # cs) \<longleftrightarrow> starts_with sub (c # cs) \<or> contains sub cs"
  by (simp add: contains_def)

lemma contains_iff: "contains sub s \<longleftrightarrow> (\<exists>pre post. s = pre @ sub @ post)"
proof (induction s)
  case Nil
  show ?case by (simp add: contains_Nil)
next
  case (Cons c cs)
  show ?case
  proof
    assume "contains sub (c # cs)"
    then consider "starts_with sub (c # cs)" | "contains sub cs"
      by (auto simp: contains_Cons)
    then show "\<exists>pre post. c # cs = pre @ sub @ post"
    proof cases
      case 1
      then obtain post where "c # cs = sub @ post" by (auto simp: starts_with_iff)
      then have "c # cs = [] @ sub @ post" by simp
      then show ?thesis by blast
    next
      case 2
      with Cons.IH obtain pre post where "cs = pre @ sub @ post" by blast
      then have "c # cs = (c # pre) @ sub @ post" by simp
      then show ?thesis by blast
    qed
  next
    assume "\<exists>pre post. c # cs = pre @ sub @ post"
    then obtain pre post where eq: "c # cs = pre @ sub @ post" by blast
    show "contains sub (c # cs)"
    proof (cases pre)
      case Nil
      with eq have "starts_with sub (c # cs)" by (auto simp: starts_with_iff)
      then show ?thesis by (simp add: contains_Cons)
    next
      case (Cons p pre')
      with eq have "cs = pre' @ sub @ post" by simp
      with Cons.IH have "contains sub cs" by blast
      then show ?thesis by (simp add: contains_Cons)
    qed
  qed
qed

lemma starts_with_append_long:
  "length sub \<le> length xs \<Longrightarrow> starts_with sub (xs @ ys) = starts_with sub xs"
  by (simp add: starts_with_def)

lemma starts_with_butlast:
  assumes "xs \<noteq> []" and "sub \<noteq> []"
  shows "starts_with sub (xs @ sub @ post) = starts_with sub (xs @ butlast sub)"
proof -
  have "xs @ sub @ post = (xs @ butlast sub) @ (last sub # post)"
    using assms(2) by simp
  moreover have "length sub \<le> length (xs @ butlast sub)"
    using assms by (cases xs) simp_all
  ultimately show ?thesis
    by (simp only: starts_with_append_long)
qed

lemma find_sub_first:
  assumes "sub \<noteq> []" and "\<not> contains sub (pre @ butlast sub)"
  shows "find_sub sub (pre @ sub @ post) = Some (length pre)"
  using assms(2)
proof (induction pre)
  case Nil
  from assms(1) obtain c cs where "sub @ post = c # cs" by (cases sub) auto
  moreover have "starts_with sub (sub @ post)" by (simp add: starts_with_def)
  ultimately show ?case by simp
next
  case (Cons p pre)
  from Cons.prems have ns: "\<not> starts_with sub (p # pre @ butlast sub)"
    and nc: "\<not> contains sub (pre @ butlast sub)"
    by (simp_all add: contains_Cons)
  have "\<not> starts_with sub (p # pre @ sub @ post)"
    using starts_with_butlast[of "p # pre" sub post] assms(1) ns by simp
  with Cons.IH[OF nc] show ?case by simp
qed

lemma find_sub_decomp:
  assumes "sub \<noteq> []" and "find_sub sub s = Some i"
  shows "\<exists>post. s = take i s @ sub @ post \<and> \<not> contains sub (take i s @ butlast sub)"
  using assms(2)
proof (induction s arbitrary: i)
  case Nil
  with assms(1) show ?case by simp
next
  case (Cons c cs)
  show ?case
  proof (cases "starts_with sub (c # cs)")
    case True
    with Cons.prems have "i = 0" by simp
    moreover from True obtain post where "c # cs = sub @ post" by (auto simp: starts_with_iff)
    moreover have "\<not> contains sub (butlast sub)"
    proof
      assume "contains sub (butlast sub)"
      then obtain a b where "butlast sub = a @ sub @ b" by (auto simp: contains_iff)
      then have "length (butlast sub) = length (a @ sub @ b)" by simp
      moreover have "length (butlast sub) < length sub" using assms(1) by simp
      ultimately show False by simp
    qed
    ultimately show ?thesis by simp
  next
    case False
    with Cons.prems obtain j where j: "find_sub sub cs = Some j" and i: "i = Suc j" by auto
    from Cons.IH[OF j] obtain post where eq: "cs = take j cs @ sub @ post"
      and nc: "\<not> contains sub (take j cs @ butlast sub)" by blast
    have "\<not> starts_with sub (c # take j cs @ butlast sub)"
      using starts_with_butlast[of "c # take j cs" sub post] assms(1) False eq by simp
    with nc have "\<not> contains sub (c # take j cs @ butlast sub)" by (simp add: contains_Cons)
    with eq i show ?thesis by auto
  qed
qed

section \<open>Properties of the chat endpoint\<close>

lemma contains_crisis_language_iff:
  "contains_crisis_language lower s \<longleftrightarrow>
     (\<exists>w \<in> set crisis_words. \<exists>pre post. lower s = pre @ w @ post)"
  by (simp only: contains_crisis_language_def list_ex_iff contains_iff)

text \<open>
  C8: a POST to \<open>/get\<close> whose session has no \<open>user_id\<close> is answered with status 401 and
  the body "Please log in to chat.", whatever the form holds and whether or not the
  model is loaded; the session check is the only step that runs.
\<close>

theorem chat_requires_session:
  "sess ''user_id'' = None \<Longrightarrow>
     get_bot_response lower g sess frm
       = (Body (lit ''Please log in to chat.'') 401, [SessionCheck])"
  by (simp add: get_bot_response_def)

theorem chat_requires_session_witness:
  "get_bot_response ascii_lower \<lparr>tokenizer = None, model = None\<rparr> Map.empty
     [''msg'' \<mapsto> lit ''I want to die'']
     = (Body (lit ''Please log in to chat.'') 401, [SessionCheck])"
  using chat_requires_session [of Map.empty ascii_lower "\<lparr>tokenizer = None, model = None\<rparr>"
      "[''msg'' \<mapsto> lit ''I want to die'']"]
  by simp

text \<open>
  The examples of the spec, for every lowercasing function that maps these three ASCII
  texts as \<open>str.lower\<close> does.
\<close>

lemma contains_crisis_language_examples:
  "lower (lit ''I want to die'') = lit ''i want to die''
     \<Longrightarrow> contains_crisis_language lower (lit ''I want to die'')"
  "lower (lit ''I want pizza'') = lit ''i want pizza''
     \<Longrightarrow> \<not> contains_crisis_language lower (lit ''I want pizza'')"
  "lower (lit ''SUICIDE'') = lit ''suicide''
     \<Longrightarrow> contains_crisis_language lower (lit ''SUICIDE'')"
  by (simp_all add: contains_crisis_language_def crisis_words_def lit_def
      contains_def starts_with_def)

text \<open>
  C1: for a request with a session whose message is not empty after trimming, if the
  lowercased trimmed message, whatever function \<open>lower\<close> the runtime lowercases with,
  contains one of the five crisis phrases as a substring, then the reply is the fixed
  safety message with status 200, the crisis check is the last step, and no \<open>Generate\<close>
  step runs, whether or not the model is loaded. The safety message refers to the
  emergency services.
\<close>

theorem crisis_language_short_circuits:
  assumes "sess ''user_id'' \<noteq> None"
    and "frm ''msg'' = Some m"
    and "strip m \<noteq> []"
    and "w \<in> set crisis_words"
    and "lower (strip m) = pre @ w @ post"
  shows "get_bot_response lower g sess frm
           = (Body safety_message 200, [SessionCheck, ReadMessage, EmptyCheck, CrisisCheck])
       \<and> (\<forall>prompt. Generate prompt \<notin> set (snd (get_bot_response lower g sess frm)))
       \<and> contains (lit ''emergency services'') safety_message"
proof -
  from assms(4,5) have crisis: "contains_crisis_language lower (strip m)"
    unfolding contains_crisis_language_iff by blast
  have resp: "get_bot_response lower g sess frm
      = (Body safety_message 200, [SessionCheck, ReadMessage, EmptyCheck, CrisisCheck])"
    using assms(1,2,3) crisis by (simp add: get_bot_response_def)
  have "contains (lit ''emergency services'') safety_message"
    by (simp add: safety_message_def lit_def contains_def starts_with_def)
  with resp show ?thesis by simp
qed

theorem crisis_language_short_circuits_witness:
  "get_bot_response ascii_lower
     \<lparr>tokenizer = Some \<lparr>encode = (\<lambda>s. []), decode = (\<lambda>t. lit ''Serene: fine'')\<rparr>,
      model = Some (\<lambda>x. x)\<rparr>
     [''user_id'' \<mapsto> 1] [''msg'' \<mapsto> [0xA0] @ lit '' I WANT TO DIE  '']
   = (Body safety_message 200, [SessionCheck, ReadMessage, EmptyCheck, CrisisCheck])"
  using crisis_language_short_circuits [of "[''user_id'' \<mapsto> 1]"
      "[''msg'' \<mapsto> [0xA0] @ lit '' I WANT TO DIE  '']" "[0xA0] @ lit '' I WANT TO DIE  ''"
      "lit ''want to die''" ascii_lower "lit ''i ''" "[]"
      "\<lparr>tokenizer = Some \<lparr>encode = (\<lambda>s. []), decode = (\<lambda>t. lit ''Serene: fine'')\<rparr>,
        model = Some (\<lambda>x. x)\<rparr>"]
  by (simp add: crisis_words_def strip_def isspace_def ascii_lower_def lit_def)

section \<open>Properties of reply extraction\<close>

lemma split_once_first:
  assumes "sub \<noteq> []" and "\<not> contains sub (pre @ butlast sub)"
  shows "split_once sub (pre @ sub @ post) = [pre, post]"
  using find_sub_first[OF assms, of post] by (simp add: split_once_def)

lemma butlast_label: "butlast (lit ''Serene:'') = lit ''Serene''"
  by (simp add: lit_def)

lemma label_nonempty: "lit ''Serene:'' \<noteq> []"
  by (simp add: lit_def)

text \<open>
  C5: a decoded output without the label "Serene:" is kept as it is. When the label
  occurs, the output splits at its first occurrence (no occurrence of the label begins
  inside \<open>pre\<close>), and the reply kept is the text after that occurrence, stripped; such a
  split exists for every output that contains the label, so the subscript never fails.
  The spec's example is the last conjunct.
\<close>

theorem extract_reply_after_first_label:
  "(\<not> contains (lit ''Serene:'') reply \<longrightarrow> extract_reply reply = Some reply)
   \<and> (reply = pre @ lit ''Serene:'' @ post \<and> \<not> contains (lit ''Serene:'') (pre @ lit ''Serene'')
        \<longrightarrow> extract_reply reply = Some (strip post))
   \<and> (contains (lit ''Serene:'') reply \<longrightarrow>
        (\<exists>pre' post'. reply = pre' @ lit ''Serene:'' @ post'
            \<and> \<not> contains (lit ''Serene:'') (pre' @ lit ''Serene'')
            \<and> extract_reply reply = Some (strip post')))
   \<and> extract_reply (lit ''User: hello\<newline>Serene: I'm doing well, thank you!'')
        = Some (lit ''I'm doing well, thank you!'')"
proof (intro conjI impI)
  assume "\<not> contains (lit ''Serene:'') reply"
  then show "extract_reply reply = Some reply" by (simp add: extract_reply_def)
next
  assume a: "reply = pre @ lit ''Serene:'' @ post
      \<and> \<not> contains (lit ''Serene:'') (pre @ lit ''Serene'')"
  then have "\<not> contains (lit ''Serene:'') (pre @ butlast (lit ''Serene:''))"
    by (simp add: butlast_label)
  with label_nonempty
  have "split_once (lit ''Serene:'') (pre @ lit ''Serene:'' @ post) = [pre, post]"
    by (rule split_once_first)
  moreover have "contains (lit ''Serene:'') (pre @ lit ''Serene:'' @ post)"
    unfolding contains_iff by blast
  ultimately show "extract_reply reply = Some (strip post)"
    using a by (simp add: extract_reply_def)
next
  assume c: "contains (lit ''Serene:'') reply"
  then obtain i where i: "find_sub (lit ''Serene:'') reply = Some i"
    by (auto simp: contains_def)
  from find_sub_decomp[OF label_nonempty i] obtain post' where
    eq: "reply = take i reply @ lit ''Serene:'' @ post'"
    and first: "\<not> contains (lit ''Serene:'') (take i reply @ butlast (lit ''Serene:''))"
    by auto
  from first have first': "\<not> contains (lit ''Serene:'') (take i reply @ lit ''Serene'')"
    by (simp add: butlast_label)
  from label_nonempty first
  have "split_once (lit ''Serene:'') (take i reply @ lit ''Serene:'' @ post')
      = [take i reply, post']"
    by (rule split_once_first)
  with eq have "split_once (lit ''Serene:'') reply = [take i reply, post']" by simp
  with c have "extract_reply reply = Some (strip post')" by (simp add: extract_reply_def)
  with eq first' show "\<exists>pre' post'. reply = pre' @ lit ''Serene:'' @ post'
            \<and> \<not> contains (lit ''Serene:'') (pre' @ lit ''Serene'')
            \<and> extract_reply reply = Some (strip post')"
    by blast
next
  show "extract_reply (lit ''User: hello\<newline>Serene: I'm doing well, thank you!'')
        = Some (lit ''I'm doing well, thank you!'')"
    by (simp add: extract_reply_def contains_def split_once_def starts_with_def strip_def
        isspace_def lit_def)
qed

theorem extract_reply_after_first_label_witness:
  "\<not> contains (lit ''Serene:'') (lit ''no label here'')
   \<and> extract_reply (lit ''no label here'') = Some (lit ''no label here'')
   \<and> \<not> contains (lit ''Serene:'') (lit ''Serene'' @ lit ''Serene'')
   \<and> extract_reply (lit ''Serene'' @ lit ''Serene:'' @ ([0xA0] @ lit '' one Serene: two '' @ [0x3000]))
       = Some (lit ''one Serene: two'')
   \<and> contains (lit ''Serene:'') (lit ''Serene: a'')"
  using extract_reply_after_first_label [of "lit ''no label here''" "lit ''Serene''"
      "[0xA0] @ lit '' one Serene: two '' @ [0x3000]"]
    extract_reply_after_first_label [of
      "lit ''Serene'' @ lit ''Serene:'' @ ([0xA0] @ lit '' one Serene: two '' @ [0x3000])"
      "lit ''Serene''" "[0xA0] @ lit '' one Serene: two '' @ [0x3000]"]
    extract_reply_after_first_label [of "lit ''Serene: a''" "[]" "[]"]
  by (simp add: contains_def starts_with_def strip_def isspace_def lit_def)

section \<open>Properties of the whitespace functions\<close>

lemma lit_space: "lit '' '' = [32]"
  by (simp add: lit_def)

declare lit_space [simp]

lemma isspace_space: "isspace 32"
  by (simp add: isspace_def)

lemma split_ws_dropWhile: "split_ws (dropWhile isspace s) = split_ws s"
  by (induction s) simp_all

lemma collapse_ws_nonspace_append:
  "\<forall>c \<in> set xs. \<not> isspace c \<Longrightarrow> collapse_ws (xs @ ys) = xs @ collapse_ws ys"
  by (induction xs) simp_all

lemma takeWhile_nonspace_collapse:
  "takeWhile (\<lambda>x. \<not> isspace x) (collapse_ws s) = takeWhile (\<lambda>x. \<not> isspace x) s"
  by (induction s rule: collapse_ws.induct) (simp_all add: isspace_space)

lemma dropWhile_nonspace_collapse:
  "dropWhile (\<lambda>x. \<not> isspace x) (collapse_ws s) = collapse_ws (dropWhile (\<lambda>x. \<not> isspace x) s)"
  by (induction s rule: collapse_ws.induct) (simp_all add: isspace_space)

lemma split_ws_collapse_ws: "split_ws (collapse_ws s) = split_ws s"
proof (induction s rule: length_induct)
  case (1 s)
  show ?case
  proof (cases s)
    case Nil
    then show ?thesis by simp
  next
    case (Cons c cs)
    show ?thesis
    proof (cases "isspace c")
      case True
      have "length (dropWhile isspace cs) < length s"
        using Cons by (simp add: le_imp_less_Suc length_dropWhile_le)
      with 1 have "split_ws (collapse_ws (dropWhile isspace cs)) = split_ws (dropWhile isspace cs)"
        by blast
      with True Cons show ?thesis by (simp add: isspace_space split_ws_dropWhile)
    next
      case False
      have "length (dropWhile (\<lambda>x. \<not> isspace x) cs) < length s"
        using Cons by (simp add: le_imp_less_Suc length_dropWhile_le)
      with 1 have "split_ws (collapse_ws (dropWhile (\<lambda>x. \<not> isspace x) cs))
          = split_ws (dropWhile (\<lambda>x. \<not> isspace x) cs)"
        by blast
      with False Cons show ?thesis
        by (simp add: takeWhile_nonspace_collapse dropWhile_nonspace_collapse)
    qed
  qed
qed

lemma collapse_ws_only_spaces: "c \<in> set (collapse_ws s) \<Longrightarrow> isspace c \<Longrightarrow> c = 32"
  by (induction s arbitrary: c rule: collapse_ws.induct) (auto split: if_splits)

lemma collapse_ws_after_space:
  "collapse_ws s = a # b # rest \<Longrightarrow> isspace a \<Longrightarrow> \<not> isspace b"
proof (cases s)
  case Nil
  assume "collapse_ws s = a # b # rest" with Nil show ?thesis by simp
next
  case (Cons c cs)
  assume eq: "collapse_ws s = a # b # rest" and a: "isspace a"
  from eq a Cons have c: "isspace c" by (auto split: if_splits)
  with eq Cons have eq': "collapse_ws (dropWhile isspace cs) = b # rest" by simp
  show ?thesis
  proof (cases "dropWhile isspace cs")
    case Nil
    with eq' show ?thesis by simp
  next
    case (Cons d ds)
    then have "\<not> isspace d" by (metis hd_dropWhile list.sel(1) list.distinct(1))
    with eq' Cons show ?thesis by simp
  qed
qed

lemma collapse_ws_no_two_spaces: "\<not> contains [32, 32] (collapse_ws s)"
proof (induction s rule: collapse_ws.induct)
  case 1
  show ?case by (simp add: contains_Nil)
next
  case (2 c cs)
  show ?case
  proof (cases "isspace c")
    case True
    have "\<not> starts_with [32, 32] (collapse_ws (c # cs))"
    proof
      assume "starts_with [32, 32] (collapse_ws (c # cs))"
      then obtain post where "collapse_ws (c # cs) = 32 # 32 # post"
        by (auto simp: starts_with_iff)
      from collapse_ws_after_space[OF this] show False by (simp add: isspace_space)
    qed
    moreover have "\<not> contains [32, 32] (collapse_ws (dropWhile isspace cs))"
      using 2 True by simp
    ultimately show ?thesis
      using True contains_Cons[of "[32, 32]" "32" "collapse_ws (dropWhile isspace cs)"]
      by simp
  next
    case False
    then have "c \<noteq> 32" using isspace_space by auto
    then have "\<not> starts_with [32, 32] (c # collapse_ws cs)"
      by (auto simp: starts_with_iff)
    with 2 False show ?thesis by (simp add: contains_Cons)
  qed
qed

lemma collapse_ws_no_double_space: "\<not> contains (lit ''  '') (collapse_ws s)"
  using collapse_ws_no_two_spaces[of s] by (simp add: lit_def)

lemma split_ws_word_space:
  assumes "w \<noteq> []" and "\<forall>c \<in> set w. \<not> isspace c"
  shows "split_ws (w @ 32 # rest) = w # split_ws rest"
proof -
  from assms(1) obtain x xs where w: "w = x # xs" by (cases w) auto
  with assms(2) have x: "\<not> isspace x" and xs: "\<forall>c \<in> set xs. \<not> isspace c" by simp_all
  from xs have "takeWhile (\<lambda>c. \<not> isspace c) (xs @ 32 # rest) = xs"
    by (simp add: takeWhile_append2 isspace_space)
  moreover from xs have "dropWhile (\<lambda>c. \<not> isspace c) (xs @ 32 # rest) = 32 # rest"
    by (simp add: dropWhile_append2 isspace_space)
  ultimately show ?thesis using w x by (simp add: isspace_space)
qed

lemma split_ws_word:
  assumes "w \<noteq> []" and "\<forall>c \<in> set w. \<not> isspace c"
  shows "split_ws w = [w]"
proof -
  from assms(1) obtain x xs where w: "w = x # xs" by (cases w) auto
  with assms(2) have x: "\<not> isspace x" and xs: "\<forall>c \<in> set xs. \<not> isspace c" by simp_all
  from xs have "takeWhile (\<lambda>c. \<not> isspace c) xs = xs" "dropWhile (\<lambda>c. \<not> isspace c) xs = []"
    by simp_all
  with w x show ?thesis by (simp del: dropWhile_eq_Nil_conv takeWhile_eq_all_conv)
qed

lemma split_ws_join:
  "\<forall>w \<in> set ws. w \<noteq> [] \<and> (\<forall>c \<in> set w. \<not> isspace c) \<Longrightarrow> split_ws (join (lit '' '') ws) = ws"
proof (induction "lit '' ''" ws rule: join.induct)
  case 1
  show ?case by simp
next
  case (2 w)
  then show ?case by (simp add: split_ws_word)
next
  case (3 w v ws)
  then have "split_ws (join (lit '' '') (v # ws)) = v # ws" by simp
  moreover have "split_ws (w @ 32 # join (lit '' '') (v # ws)) = w # split_ws (join (lit '' '') (v # ws))"
    using 3(2) by (intro split_ws_word_space) simp_all
  ultimately show ?case by simp
qed

lemma join_starts_nonspace:
  "ws \<noteq> [] \<Longrightarrow> \<forall>w \<in> set ws. w \<noteq> [] \<and> (\<forall>c \<in> set w. \<not> isspace c)
     \<Longrightarrow> join sep ws \<noteq> [] \<and> \<not> isspace (hd (join sep ws))"
  by (induction sep ws rule: join.induct) auto

lemma collapse_ws_join:
  "\<forall>w \<in> set ws. w \<noteq> [] \<and> (\<forall>c \<in> set w. \<not> isspace c) \<Longrightarrow> collapse_ws (join (lit '' '') ws) = join (lit '' '') ws"
proof (induction "lit '' ''" ws rule: join.induct)
  case 1
  show ?case by simp
next
  case (2 w)
  then show ?case using collapse_ws_nonspace_append[of w "[]"] by simp
next
  case (3 w v ws)
  then have IH: "collapse_ws (join (lit '' '') (v # ws)) = join (lit '' '') (v # ws)" by simp
  from 3(2) have "join (lit '' '') (v # ws) \<noteq> [] \<and> \<not> isspace (hd (join (lit '' '') (v # ws)))"
    by (intro join_starts_nonspace) simp_all
  then have "dropWhile isspace (join (lit '' '') (v # ws)) = join (lit '' '') (v # ws)"
    by (cases "join (lit '' '') (v # ws)") simp_all
  with IH have "collapse_ws (32 # join (lit '' '') (v # ws)) = 32 # join (lit '' '') (v # ws)"
    by (simp add: isspace_space)
  moreover have "\<forall>c \<in> set w. \<not> isspace c" using 3(2) by simp
  ultimately show ?case by (simp add: collapse_ws_nonspace_append)
qed

lemma format_reply_long:
  "length (split_ws text) > 60 \<Longrightarrow>
     format_reply text = join (lit '' '') (take 60 (split_ws text)) @ lit ''...''"
  by (simp add: format_reply_def split_ws_collapse_ws)

lemma format_reply_short:
  "length (split_ws text) \<le> 60 \<Longrightarrow> format_reply text = collapse_ws text"
  by (simp add: format_reply_def split_ws_collapse_ws)

section \<open>Properties of the response formatter\<close>

text \<open>
  C4: the formatter replaces every run of whitespace by one space (the result has the
  words of the input, no whitespace character other than the space and no two spaces
  in a row) and splits the result into words. With more than 60 words it returns the
  first 60 joined by single spaces, followed by "..."; otherwise it returns the
  collapsed text, whose words are those of the input. So a text of 100 copies of a word
  gives 60 copies joined by single spaces and "...", and a text of 10 words keeps its 10
  words; 10 words already joined by single spaces come back unchanged.
\<close>

theorem format_reply_sixty_words:
  "split_ws (collapse_ws text) = split_ws text
   \<and> \<not> contains (lit ''  '') (collapse_ws text)
   \<and> (\<forall>c \<in> set (collapse_ws text). isspace c \<longrightarrow> c = 32)
   \<and> (length (split_ws text) > 60 \<longrightarrow>
        format_reply text = join (lit '' '') (take 60 (split_ws text)) @ lit ''...'')
   \<and> (length (split_ws text) \<le> 60 \<longrightarrow>
        format_reply text = collapse_ws text \<and> split_ws (format_reply text) = split_ws text)
   \<and> (split_ws text = replicate 100 w \<longrightarrow>
        format_reply text = join (lit '' '') (replicate 60 w) @ lit ''...'')
   \<and> (length ws = 10 \<and> (\<forall>w \<in> set ws. w \<noteq> [] \<and> (\<forall>c \<in> set w. \<not> isspace c)) \<longrightarrow>
        format_reply (join (lit '' '') ws) = join (lit '' '') ws
        \<and> split_ws (format_reply (join (lit '' '') ws)) = ws)"
proof (intro conjI impI ballI)
  show "split_ws (collapse_ws text) = split_ws text" by (rule split_ws_collapse_ws)
  show "\<not> contains (lit ''  '') (collapse_ws text)" by (rule collapse_ws_no_double_space)
  show "c = 32" if "c \<in> set (collapse_ws text)" "isspace c" for c
    using that by (rule collapse_ws_only_spaces)
  show "format_reply text = join (lit '' '') (take 60 (split_ws text)) @ lit ''...''"
    if "length (split_ws text) > 60"
    using that by (rule format_reply_long)
  show "format_reply text = collapse_ws text" if "length (split_ws text) \<le> 60"
    using that by (rule format_reply_short)
  show "split_ws (format_reply text) = split_ws text" if "length (split_ws text) \<le> 60"
    using that by (simp add: format_reply_short split_ws_collapse_ws)
  show "format_reply text = join (lit '' '') (replicate 60 w) @ lit ''...''"
    if "split_ws text = replicate 100 w"
    using that format_reply_long[of "text"] by simp
  show "format_reply (join (lit '' '') ws) = join (lit '' '') ws"
    if "length ws = 10 \<and> (\<forall>w \<in> set ws. w \<noteq> [] \<and> (\<forall>c \<in> set w. \<not> isspace c))"
    using that format_reply_short[of "join (lit '' '') ws"] split_ws_join[of ws]
      collapse_ws_join[of ws]
    by simp
  show "split_ws (format_reply (join (lit '' '') ws)) = ws"
    if "length ws = 10 \<and> (\<forall>w \<in> set ws. w \<noteq> [] \<and> (\<forall>c \<in> set w. \<not> isspace c))"
    using that format_reply_short[of "join (lit '' '') ws"] split_ws_join[of ws]
      collapse_ws_join[of ws]
    by simp
qed

theorem format_reply_sixty_words_witness:
  "format_reply (lit ''a a a a a a a a a a a a a a a a a a a a a a a a a a a a a a  b\<newline>b\<newline>b\<newline>b\<newline>b\<newline>b\<newline>b\<newline>b\<newline>b\<newline>b\<newline>b\<newline>b\<newline>b\<newline>b\<newline>b\<newline>b\<newline>b\<newline>b\<newline>b\<newline>b\<newline>b\<newline>b\<newline>b\<newline>b\<newline>b\<newline>b\<newline>b\<newline>b\<newline>b\<newline>b\<newline>b '') = lit ''a a a a a a a a a a a a a a a a a a a a a a a a a a a a a a b b b b b b b b b b b b b b b b b b b b b b b b b b b b b b...''
   \<and> format_reply ([0xA0] @ lit ''one'' @ [0x2003, 0x3000] @ lit ''two\<newline>three '')
       = lit '' one two three ''
   \<and> format_reply (lit ''a b c d e f g h i j'') = lit ''a b c d e f g h i j''
   \<and> format_reply (join (lit '' '') (replicate 100 (lit ''hi'')) @ [0x85])
       = join (lit '' '') (replicate 60 (lit ''hi'')) @ lit ''...''"
proof -
  have long: "format_reply (lit ''a a a a a a a a a a a a a a a a a a a a a a a a a a a a a a  b\<newline>b\<newline>b\<newline>b\<newline>b\<newline>b\<newline>b\<newline>b\<newline>b\<newline>b\<newline>b\<newline>b\<newline>b\<newline>b\<newline>b\<newline>b\<newline>b\<newline>b\<newline>b\<newline>b\<newline>b\<newline>b\<newline>b\<newline>b\<newline>b\<newline>b\<newline>b\<newline>b\<newline>b\<newline>b\<newline>b '') = lit ''a a a a a a a a a a a a a a a a a a a a a a a a a a a a a a b b b b b b b b b b b b b b b b b b b b b b b b b b b b b b...''"
    using format_reply_sixty_words [of "lit ''a a a a a a a a a a a a a a a a a a a a a a a a a a a a a a  b\<newline>b\<newline>b\<newline>b\<newline>b\<newline>b\<newline>b\<newline>b\<newline>b\<newline>b\<newline>b\<newline>b\<newline>b\<newline>b\<newline>b\<newline>b\<newline>b\<newline>b\<newline>b\<newline>b\<newline>b\<newline>b\<newline>b\<newline>b\<newline>b\<newline>b\<newline>b\<newline>b\<newline>b\<newline>b\<newline>b ''" "[]" "[]",
        THEN conjunct2, THEN conjunct2, THEN conjunct2, THEN conjunct1]
    by (simp add: isspace_def lit_def)
  have short: "format_reply ([0xA0] @ lit ''one'' @ [0x2003, 0x3000] @ lit ''two\<newline>three '')
      = lit '' one two three ''"
    using format_reply_sixty_words [of
        "[0xA0] @ lit ''one'' @ [0x2003, 0x3000] @ lit ''two\<newline>three ''" "[]" "[]",
        THEN conjunct2, THEN conjunct2, THEN conjunct2, THEN conjunct2, THEN conjunct1]
    by (simp add: isspace_def lit_def)
  have ten: "format_reply (lit ''a b c d e f g h i j'') = lit ''a b c d e f g h i j''"
    using format_reply_sixty_words [of "[]" "[]"
      "[lit ''a'', lit ''b'', lit ''c'', lit ''d'', lit ''e'', lit ''f'', lit ''g'', lit ''h'',
        lit ''i'', lit ''j'']",
        THEN conjunct2, THEN conjunct2, THEN conjunct2, THEN conjunct2, THEN conjunct2,
        THEN conjunct2]
    by (simp add: isspace_def lit_def)
  have "split_ws (join (lit '' '') (replicate 100 (lit ''hi'')))
      = replicate 100 (lit ''hi'')"
    by (rule split_ws_join) (simp add: isspace_def lit_def)
  moreover have "split_ws (xs @ [0x85]) = split_ws xs" for xs
    by (induction xs rule: split_ws.induct)
      (simp_all add: isspace_def takeWhile_tail dropWhile_append3)
  ultimately have words: "split_ws (join (lit '' '') (replicate 100 (lit ''hi'')) @ [0x85])
      = replicate 100 (lit ''hi'')"
    by simp
  have hundred: "format_reply (join (lit '' '') (replicate 100 (lit ''hi'')) @ [0x85])
      = join (lit '' '') (replicate 60 (lit ''hi'')) @ lit ''...''"
    using words format_reply_sixty_words [of
        "join (lit '' '') (replicate 100 (lit ''hi'')) @ [0x85]" "lit ''hi''" "[]",
        THEN conjunct2, THEN conjunct2, THEN conjunct2, THEN conjunct2, THEN conjunct2,
        THEN conjunct1]
    by (simp only: simp_thms)
  from long short ten hundred show ?thesis by (simp only: simp_thms)
qed

section \<open>Properties of the credential store\<close>

lemma first_by_username_append:
  "first_by_username u (db @ [r]) =
     (case first_by_username u db of
        Some x \<Rightarrow> Some x
      | None \<Rightarrow> if username r = u then Some r else None)"
  by (induction db) (simp_all add: first_by_username_def)

lemma first_by_username_filter:
  "first_by_username u db = None \<longleftrightarrow> filter (\<lambda>r. username r = u) db = []"
  by (induction db) (simp_all add: first_by_username_def)

lemma first_by_username_None_iff:
  "first_by_username u db = None \<longleftrightarrow> u \<notin> username ` set db"
  by (induction db) (auto simp: first_by_username_def)

lemma signup_cases:
  "snd (signup h salt pick req db) = db
   \<or> (\<exists>raw pw i. http_method req = POST \<and> form req ''username'' = Some raw
        \<and> form req ''password'' = Some pw \<and> first_by_username (strip raw) db = None
        \<and> signup h salt pick req db =
            (Redirect ''login'',
             db @ [\<lparr>id' = i, username = strip raw,
                    password = generate_password_hash h salt pw\<rparr>]))"
  by (auto simp: signup_def db_add_def Let_def split: option.splits)

lemma signup_success:
  assumes "signup h salt pick req db = (Redirect ''login'', db')"
  shows "\<exists>raw pw i. http_method req = POST \<and> form req ''username'' = Some raw
        \<and> form req ''password'' = Some pw \<and> first_by_username (strip raw) db = None
        \<and> db' = db @ [\<lparr>id' = i, username = strip raw,
                    password = generate_password_hash h salt pw\<rparr>]"
  using assms by (auto simp: signup_def db_add_def Let_def split: option.splits if_splits)

lemma signup_keeps_users:
  "first_by_username u db = Some r \<Longrightarrow>
     first_by_username u (snd (signup h salt pick req db)) = Some r"
  using signup_cases[of h salt pick req db] by (auto simp: first_by_username_append)

lemma signups_keep_users:
  "first_by_username u db = Some r \<Longrightarrow> first_by_username u (signups h reqs db) = Some r"
  by (induction h reqs db rule: signups.induct) (simp_all add: signup_keeps_users)

lemma signup_keeps_rows:
  assumes "first_by_username u db \<noteq> None"
  shows "filter (\<lambda>r. username r = u) (snd (signup h salt pick req db))
       = filter (\<lambda>r. username r = u) db"
  using signup_cases[of h salt pick req db] assms by auto

lemma signups_keep_rows:
  "first_by_username u db \<noteq> None \<Longrightarrow>
     filter (\<lambda>r. username r = u) (signups h reqs db) = filter (\<lambda>r. username r = u) db"
proof (induction h reqs db rule: signups.induct)
  case (1 h db)
  show ?case by simp
next
  case (2 h salt pick req rest db)
  from 2(2) obtain r where "first_by_username u db = Some r" by auto
  then have "first_by_username u (snd (signup h salt pick req db)) \<noteq> None"
    by (simp add: signup_keeps_users)
  with 2 show ?case by (simp add: signup_keeps_rows)
qed

lemma login_found:
  assumes "form req ''username'' = Some raw" and "form req ''password'' = Some pw"
    and "http_method req = POST" and "first_by_username (strip raw) db = Some r"
  shows "login h req sess db =
     (if check_password_hash h (password r) pw
      then (Redirect ''home'', sess(''user_id'' \<mapsto> id' r))
      else (Body (lit ''Invalid username or password.'') 401, sess))"
  using assms by (simp add: login_def)

lemma login_after_signup:
  assumes "signup h salt pick req db = (Redirect ''login'', db')"
    and "form req ''username'' = Some raw" and "form req ''password'' = Some pw"
    and "http_method req2 = POST"
    and "form req2 ''username'' = Some raw2" and "form req2 ''password'' = Some pw2"
    and "strip raw2 = strip raw"
  shows "\<exists>usr \<in> set (signups h later db'). username usr = strip raw
       \<and> password usr = generate_password_hash h salt pw
       \<and> login h req2 sess (signups h later db') =
           (if check_password_hash h (generate_password_hash h salt pw) pw2
            then (Redirect ''home'', sess(''user_id'' \<mapsto> id' usr))
            else (Body (lit ''Invalid username or password.'') 401, sess))"
proof -
  from signup_success[OF assms(1)] assms(2,3) obtain i where
    new: "first_by_username (strip raw) db = None"
    and db': "db' = db @ [\<lparr>id' = i, username = strip raw,
                           password = generate_password_hash h salt pw\<rparr>]"
    by auto
  let ?r = "\<lparr>id' = i, username = strip raw, password = generate_password_hash h salt pw\<rparr>"
  from new db' have "first_by_username (strip raw) db' = Some ?r"
    by (simp add: first_by_username_append)
  then have found: "first_by_username (strip raw2) (signups h later db') = Some ?r"
    using assms(7) by (simp add: signups_keep_users)
  then have "?r \<in> set (signups h later db')"
    unfolding first_by_username_def by (auto simp: find_Some_iff)
  moreover from login_found[OF assms(5,6,4) found]
  have "login h req2 sess (signups h later db') =
           (if check_password_hash h (generate_password_hash h salt pw) pw2
            then (Redirect ''home'', sess(''user_id'' \<mapsto> id' ?r))
            else (Body (lit ''Invalid username or password.'') 401, sess))"
    by simp
  ultimately show ?thesis by (intro bexI[of _ ?r]) simp_all
qed

text \<open>
  C6, as stated, fails in its second part: a password other than the one of the signup
  is not always rejected. With a hasher that, as the HMAC-based methods of the library
  do, takes a password and the same password followed by a zero character to the same
  key, the login with the longer password succeeds.
\<close>

theorem wrong_password_counterexample:
  "signup hmac_hasher (lit ''ab'') 0
     \<lparr>http_method = POST, form = [''username'' \<mapsto> lit ''bob'', ''password'' \<mapsto> lit ''s3cret'']\<rparr> []
     = (Redirect ''login'',
        [\<lparr>id' = 1, username = lit ''bob'', password = lit ''ss$abs3cret''\<rparr>])
   \<and> login hmac_hasher
       \<lparr>http_method = POST,
          form = [''username'' \<mapsto> lit ''bob'', ''password'' \<mapsto> lit ''s3cret'' @ [0]]\<rparr>
       Map.empty [\<lparr>id' = 1, username = lit ''bob'', password = lit ''ss$abs3cret''\<rparr>]
     = (Redirect ''home'', [''user_id'' \<mapsto> 1])
   \<and> lit ''s3cret'' @ [0] \<noteq> lit ''s3cret''"
  by (simp add: signup_def login_def db_add_def first_by_username_def next_id_def
      hmac_hasher_def hmac_key_def strip_def isspace_def lit_def)

text \<open>
  C6, amended: let a signup with username \<open>raw\<close> and password \<open>pw\<close> succeed, and let any
  number of further signup requests follow. If the library accepts \<open>pw\<close> against the
  hash it made from \<open>pw\<close>, a login with the same username and password redirects to the
  home page and stores in the session the id of a row of the table with that (trimmed)
  username. A login with the same username and any password is answered with status
  401 and the body "Invalid username or password.", the session unchanged, exactly
  when the library rejects that password against the stored hash; and for any table, a
  login that names an existing user with a password the stored hash does not accept is
  answered so.
\<close>

theorem signup_then_login:
  assumes "signup h salt pick req db = (Redirect ''login'', db')"
    and "form req ''username'' = Some raw" and "form req ''password'' = Some pw"
  shows "(check_password_hash h (generate_password_hash h salt pw) pw \<longrightarrow>
           (\<exists>usr \<in> set (signups h later db'). username usr = strip raw
             \<and> login h req sess (signups h later db')
                 = (Redirect ''home'', sess(''user_id'' \<mapsto> id' usr))))
       \<and> (\<forall>other.
             (login h (req\<lparr>form := (form req)(''password'' \<mapsto> other)\<rparr>) sess (signups h later db')
               = (Body (lit ''Invalid username or password.'') 401, sess))
             = (\<not> check_password_hash h (generate_password_hash h salt pw) other))
       \<and> (\<forall>tbl usr wrong. first_by_username (strip raw) tbl = Some usr
             \<and> \<not> check_password_hash h (password usr) wrong \<longrightarrow>
             login h (req\<lparr>form := (form req)(''password'' \<mapsto> wrong)\<rparr>) sess tbl
               = (Body (lit ''Invalid username or password.'') 401, sess))"
proof (intro conjI allI impI)
  from signup_success[OF assms(1)] have post: "http_method req = POST" by auto
  show "\<exists>usr \<in> set (signups h later db'). username usr = strip raw
             \<and> login h req sess (signups h later db')
                 = (Redirect ''home'', sess(''user_id'' \<mapsto> id' usr))"
    if "check_password_hash h (generate_password_hash h salt pw) pw"
    using login_after_signup[OF assms(1,2,3) post assms(2,3) refl, of later sess] that
    by auto
  show "(login h (req\<lparr>form := (form req)(''password'' \<mapsto> other)\<rparr>) sess (signups h later db')
               = (Body (lit ''Invalid username or password.'') 401, sess))
             = (\<not> check_password_hash h (generate_password_hash h salt pw) other)"
    for other
    using login_after_signup[OF assms(1,2,3),
        of "req\<lparr>form := (form req)(''password'' \<mapsto> other)\<rparr>" raw other later sess]
      post assms(2)
    by auto
  show "login h (req\<lparr>form := (form req)(''password'' \<mapsto> wrong)\<rparr>) sess tbl
      = (Body (lit ''Invalid username or password.'') 401, sess)"
    if "first_by_username (strip raw) tbl = Some usr \<and> \<not> check_password_hash h (password usr) wrong"
    for tbl usr wrong
    using login_found[of "req\<lparr>form := (form req)(''password'' \<mapsto> wrong)\<rparr>" raw wrong tbl usr h sess]
      post assms(2) that
    by simp
qed

theorem signup_then_login_witness:
  "login hmac_hasher
       \<lparr>http_method = POST,
          form = [''username'' \<mapsto> [0xA0] @ lit '' bob '', ''password'' \<mapsto> lit ''s3cret'']\<rparr>
       Map.empty
       [\<lparr>id' = 1, username = lit ''bob'', password = lit ''ss$abs3cret''\<rparr>,
        \<lparr>id' = 2, username = lit ''eve'', password = lit ''s$xpw''\<rparr>]
     = (Redirect ''home'', [''user_id'' \<mapsto> 1])
   \<and> login hmac_hasher
       (\<lparr>http_method = POST,
           form = [''username'' \<mapsto> [0xA0] @ lit '' bob '', ''password'' \<mapsto> lit ''s3cret'']\<rparr>
         \<lparr>form := [''username'' \<mapsto> [0xA0] @ lit '' bob '', ''password'' \<mapsto> lit ''s3cret'']
                   (''password'' \<mapsto> lit ''S3cret'')\<rparr>)
       Map.empty
       [\<lparr>id' = 1, username = lit ''bob'', password = lit ''ss$abs3cret''\<rparr>,
        \<lparr>id' = 2, username = lit ''eve'', password = lit ''s$xpw''\<rparr>]
     = (Body (lit ''Invalid username or password.'') 401, Map.empty)"
proof -
  let ?req = "\<lparr>http_method = POST,
      form = [''username'' \<mapsto> [0xA0] @ lit '' bob '', ''password'' \<mapsto> lit ''s3cret'']\<rparr>"
  let ?later = "[(lit ''x'', 0, \<lparr>http_method = POST,
      form = [''username'' \<mapsto> lit ''eve'', ''password'' \<mapsto> lit ''pw'']\<rparr>)]"
  let ?row = "\<lparr>id' = 1, username = lit ''bob'', password = lit ''ss$abs3cret''\<rparr>"
  let ?tbl = "[?row, \<lparr>id' = 2, username = lit ''eve'', password = lit ''s$xpw''\<rparr>]"
  have su: "signup hmac_hasher (lit ''ab'') 0 ?req [] = (Redirect ''login'', [?row])"
    by (simp add: signup_def db_add_def first_by_username_def next_id_def hmac_hasher_def
        hmac_key_def strip_def isspace_def lit_def)
  have later: "signups hmac_hasher ?later [?row] = ?tbl"
    by (simp add: signup_def db_add_def first_by_username_def next_id_def hmac_hasher_def
        hmac_key_def strip_def isspace_def lit_def)
  have f: "form ?req ''username'' = Some ([0xA0] @ lit '' bob '')"
    "form ?req ''password'' = Some (lit ''s3cret'')"
    by simp_all
  have own: "check_password_hash hmac_hasher
      (generate_password_hash hmac_hasher (lit ''ab'') (lit ''s3cret'')) (lit ''s3cret'')"
    by (simp add: hmac_hasher_def hmac_key_def lit_def)
  have other: "\<not> check_password_hash hmac_hasher
      (generate_password_hash hmac_hasher (lit ''ab'') (lit ''s3cret'')) (lit ''S3cret'')"
    by (simp add: hmac_hasher_def hmac_key_def lit_def)
  note run = signup_then_login [OF su f, of ?later Map.empty, unfolded later]
  have ok: "login hmac_hasher ?req Map.empty ?tbl = (Redirect ''home'', [''user_id'' \<mapsto> 1])"
    using run [THEN conjunct1, rule_format, OF own] by (simp add: strip_def isspace_def lit_def)
  have wrong: "login hmac_hasher
      (?req\<lparr>form := (form ?req)(''password'' \<mapsto> lit ''S3cret'')\<rparr>) Map.empty ?tbl
      = (Body (lit ''Invalid username or password.'') 401, Map.empty)"
    using run [THEN conjunct2, THEN conjunct1, rule_format, of "lit ''S3cret''"] other
    by (simp only: simp_thms)
  from ok wrong show ?thesis by simp
qed

text \<open>
  C7: after a successful signup with username \<open>raw\<close>, followed by any number of further
  signup requests, a signup request that carries both fields and whose username trims
  to the same string is answered with status 400 and the body "Username already
  exists!"; the table is returned unchanged and holds exactly one row with that
  username. The comparison is exact: on any table, a signup request with both fields
  gets that answer exactly when its trimmed username is, character for character, the
  username of a row.
\<close>

theorem duplicate_signup_rejected:
  assumes "signup h salt pick req db = (Redirect ''login'', db')"
    and "form req ''username'' = Some raw"
    and "http_method req2 = POST"
    and "form req2 ''username'' = Some raw2" and "form req2 ''password'' = Some pw2"
    and "strip raw2 = strip raw"
  shows "signup h salt2 pick2 req2 (signups h later db')
           = (Body (lit ''Username already exists!'') 400, signups h later db')
       \<and> length (filter (\<lambda>r. username r = strip raw) (signups h later db')) = 1
       \<and> (\<forall>req3 raw3 pw3 tbl. http_method req3 = POST \<and> form req3 ''username'' = Some raw3
             \<and> form req3 ''password'' = Some pw3 \<longrightarrow>
             (fst (signup h salt2 pick2 req3 tbl) = Body (lit ''Username already exists!'') 400)
               = (strip raw3 \<in> username ` set tbl))"
proof -
  have exact: "(fst (signup h salt2 pick2 req3 tbl) = Body (lit ''Username already exists!'') 400)
      = (strip raw3 \<in> username ` set tbl)"
    if "http_method req3 = POST \<and> form req3 ''username'' = Some raw3
          \<and> form req3 ''password'' = Some pw3"
    for req3 raw3 pw3 tbl
  proof (cases "first_by_username (strip raw3) tbl")
    case None
    with that have "fst (signup h salt2 pick2 req3 tbl) \<noteq> Body (lit ''Username already exists!'') 400"
      by (simp add: signup_def split: option.splits)
    with None show ?thesis by (simp add: first_by_username_None_iff)
  next
    case (Some r)
    with that have "fst (signup h salt2 pick2 req3 tbl) = Body (lit ''Username already exists!'') 400"
      by (simp add: signup_def)
    moreover from Some have "strip raw3 \<in> username ` set tbl"
      using first_by_username_None_iff[of "strip raw3" tbl] by simp
    ultimately show ?thesis by simp
  qed
  from signup_success[OF assms(1)] assms(2) obtain pw i where
    new: "first_by_username (strip raw) db = None"
    and db': "db' = db @ [\<lparr>id' = i, username = strip raw,
                           password = generate_password_hash h salt pw\<rparr>]"
    by auto
  let ?r = "\<lparr>id' = i, username = strip raw, password = generate_password_hash h salt pw\<rparr>"
  from new db' have found: "first_by_username (strip raw) db' = Some ?r"
    by (simp add: first_by_username_append)
  then have "first_by_username (strip raw2) (signups h later db') = Some ?r"
    using assms(6) by (simp add: signups_keep_users)
  then have dup: "signup h salt2 pick2 req2 (signups h later db')
      = (Body (lit ''Username already exists!'') 400, signups h later db')"
    using assms(3,4,5) by (simp add: signup_def)
  from new have "filter (\<lambda>r. username r = strip raw) db = []"
    by (simp add: first_by_username_filter)
  with db' have "filter (\<lambda>r. username r = strip raw) db' = [?r]" by simp
  moreover from found have "filter (\<lambda>r. username r = strip raw) (signups h later db')
      = filter (\<lambda>r. username r = strip raw) db'"
    by (intro signups_keep_rows) simp
  ultimately have "length (filter (\<lambda>r. username r = strip raw) (signups h later db')) = 1"
    by simp
  with dup exact show ?thesis by blast
qed

theorem duplicate_signup_rejected_witness:
  "signup hmac_hasher (lit ''cd'') 0
     \<lparr>http_method = POST,
        form = [''username'' \<mapsto> lit ''bob'' @ [0xA0], ''password'' \<mapsto> lit ''other'']\<rparr>
     [\<lparr>id' = 1, username = lit ''bob'', password = lit ''ss$abs3cret''\<rparr>]
   = (Body (lit ''Username already exists!'') 400,
      [\<lparr>id' = 1, username = lit ''bob'', password = lit ''ss$abs3cret''\<rparr>])
   \<and> length (filter (\<lambda>r. username r = lit ''bob'')
        [\<lparr>id' = 1, username = lit ''bob'', password = lit ''ss$abs3cret''\<rparr>]) = 1
   \<and> fst (signup hmac_hasher (lit ''cd'') 0
        \<lparr>http_method = POST,
           form = [''username'' \<mapsto> lit ''Bob'', ''password'' \<mapsto> lit ''other'']\<rparr>
        [\<lparr>id' = 1, username = lit ''bob'', password = lit ''ss$abs3cret''\<rparr>])
       \<noteq> Body (lit ''Username already exists!'') 400"
proof -
  let ?req = "\<lparr>http_method = POST,
      form = [''username'' \<mapsto> lit '' bob '', ''password'' \<mapsto> lit ''s3cret'']\<rparr>"
  let ?req2 = "\<lparr>http_method = POST,
      form = [''username'' \<mapsto> lit ''bob'' @ [0xA0], ''password'' \<mapsto> lit ''other'']\<rparr>"
  let ?req3 = "\<lparr>http_method = POST,
      form = [''username'' \<mapsto> lit ''Bob'', ''password'' \<mapsto> lit ''other'']\<rparr>"
  let ?row = "\<lparr>id' = 1, username = lit ''bob'', password = lit ''ss$abs3cret''\<rparr>"
  have su: "signup hmac_hasher (lit ''ab'') 0 ?req [] = (Redirect ''login'', [?row])"
    by (simp add: signup_def db_add_def first_by_username_def next_id_def hmac_hasher_def
        hmac_key_def strip_def isspace_def lit_def)
  have f: "form ?req ''username'' = Some (lit '' bob '')" "http_method ?req2 = POST"
    "form ?req2 ''username'' = Some (lit ''bob'' @ [0xA0])"
    "form ?req2 ''password'' = Some (lit ''other'')"
    "strip (lit ''bob'' @ [0xA0]) = strip (lit '' bob '')"
    by (simp_all add: strip_def isspace_def lit_def)
  have bob: "strip (lit '' bob '') = lit ''bob''" by (simp add: strip_def isspace_def lit_def)
  note dup = duplicate_signup_rejected [OF su f, of "lit ''cd''" 0 "[]", unfolded bob]
  have "fst (signup hmac_hasher (lit ''cd'') 0 ?req3 [?row])
      \<noteq> Body (lit ''Username already exists!'') 400"
    using dup [THEN conjunct2, THEN conjunct2, rule_format, of ?req3 "lit ''Bob''"
        "lit ''other''" "[?row]"]
    by (simp add: strip_def isspace_def lit_def)
  with dup [THEN conjunct1] dup [THEN conjunct2, THEN conjunct1] show ?thesis
    by simp
qed

text \<open>
  C9: a login for a username that is not in the table and a login for an existing
  user whose stored hash rejects the password get the same response, status 401 with
  the body "Invalid username or password.", and both leave the session as it was.
\<close>

theorem login_failure_uniform:
  assumes "http_method req1 = POST"
    and "form req1 ''username'' = Some raw1" and "form req1 ''password'' = Some pw1"
    and "first_by_username (strip raw1) db = None"
    and "http_method req2 = POST"
    and "form req2 ''username'' = Some raw2" and "form req2 ''password'' = Some pw2"
    and "first_by_username (strip raw2) db = Some usr"
    and "\<not> check_password_hash h (password usr) pw2"
  shows "login h req1 sess1 db = (Body (lit ''Invalid username or password.'') 401, sess1)
       \<and> login h req2 sess2 db = (Body (lit ''Invalid username or password.'') 401, sess2)
       \<and> fst (login h req1 sess1 db) = fst (login h req2 sess2 db)"
proof -
  have "login h req1 sess1 db = (Body (lit ''Invalid username or password.'') 401, sess1)"
    using assms(1-4) by (simp add: login_def)
  moreover have "login h req2 sess2 db = (Body (lit ''Invalid username or password.'') 401, sess2)"
    using login_found[OF assms(6,7,5,8)] assms(9) by simp
  ultimately show ?thesis by simp
qed

theorem login_failure_uniform_witness:
  "login hmac_hasher
     \<lparr>http_method = POST, form = [''username'' \<mapsto> lit ''eve'', ''password'' \<mapsto> lit ''s3cret'']\<rparr>
     Map.empty [\<lparr>id' = 1, username = lit ''bob'', password = lit ''ss$abs3cret''\<rparr>]
   = (Body (lit ''Invalid username or password.'') 401, Map.empty)
   \<and> login hmac_hasher
     \<lparr>http_method = POST,
        form = [''username'' \<mapsto> lit ''bob'' @ [0xA0], ''password'' \<mapsto> lit ''guess'']\<rparr>
     Map.empty [\<lparr>id' = 1, username = lit ''bob'', password = lit ''ss$abs3cret''\<rparr>]
   = (Body (lit ''Invalid username or password.'') 401, Map.empty)"
proof -
  let ?row = "\<lparr>id' = 1, username = lit ''bob'', password = lit ''ss$abs3cret''\<rparr>"
  let ?req1 = "\<lparr>http_method = POST,
      form = [''username'' \<mapsto> lit ''eve'', ''password'' \<mapsto> lit ''s3cret'']\<rparr>"
  let ?req2 = "\<lparr>http_method = POST,
      form = [''username'' \<mapsto> lit ''bob'' @ [0xA0], ''password'' \<mapsto> lit ''guess'']\<rparr>"
  have a: "http_method ?req1 = POST" "form ?req1 ''username'' = Some (lit ''eve'')"
    "form ?req1 ''password'' = Some (lit ''s3cret'')"
    "first_by_username (strip (lit ''eve'')) [?row] = None"
    by (simp_all add: first_by_username_def strip_def isspace_def lit_def)
  have b: "http_method ?req2 = POST" "form ?req2 ''username'' = Some (lit ''bob'' @ [0xA0])"
    "form ?req2 ''password'' = Some (lit ''guess'')"
    "first_by_username (strip (lit ''bob'' @ [0xA0])) [?row] = Some ?row"
    "\<not> check_password_hash hmac_hasher (password ?row) (lit ''guess'')"
    by (simp_all add: first_by_username_def strip_def isspace_def hmac_hasher_def
        hmac_key_def lit_def)
  from login_failure_uniform [OF a b, of Map.empty Map.empty] show ?thesis by simp
qed



section \<open>Order of the checks in the chat endpoint\<close>

lemma get_bot_response_empty:
  assumes "sess ''user_id'' \<noteq> None"
    and "strip (case frm ''msg'' of None \<Rightarrow> [] | Some m \<Rightarrow> m) = []"
  shows "get_bot_response lower g sess frm
     = (Body please_type_message 200, [SessionCheck, ReadMessage, EmptyCheck])"
  using assms by (simp add: get_bot_response_def)

lemma get_bot_response_crisis:
  assumes "sess ''user_id'' \<noteq> None"
    and "strip (case frm ''msg'' of None \<Rightarrow> [] | Some m \<Rightarrow> m) \<noteq> []"
    and "contains_crisis_language lower (strip (case frm ''msg'' of None \<Rightarrow> [] | Some m \<Rightarrow> m))"
  shows "get_bot_response lower g sess frm
     = (Body safety_message 200, [SessionCheck, ReadMessage, EmptyCheck, CrisisCheck])"
  using assms by (simp add: get_bot_response_def)

lemma get_bot_response_unavailable:
  assumes "sess ''user_id'' \<noteq> None"
    and "strip (case frm ''msg'' of None \<Rightarrow> [] | Some m \<Rightarrow> m) \<noteq> []"
    and "\<not> contains_crisis_language lower (strip (case frm ''msg'' of None \<Rightarrow> [] | Some m \<Rightarrow> m))"
    and "model g = None \<or> tokenizer g = None"
  shows "get_bot_response lower g sess frm
     = (Body unavailable_message 200,
        [SessionCheck, ReadMessage, EmptyCheck, CrisisCheck, ModelCheck])"
  using assms by (auto simp: get_bot_response_def split: option.splits)

lemma get_bot_response_no_crisis_steps:
  assumes "sess ''user_id'' \<noteq> None"
    and "strip (case frm ''msg'' of None \<Rightarrow> [] | Some m \<Rightarrow> m) \<noteq> []"
    and "\<not> contains_crisis_language lower (strip (case frm ''msg'' of None \<Rightarrow> [] | Some m \<Rightarrow> m))"
  shows "\<exists>rest. snd (get_bot_response lower g sess frm)
       = [SessionCheck, ReadMessage, EmptyCheck, CrisisCheck, ModelCheck] @ rest
     \<and> CrisisCheck \<notin> set rest"
  using assms by (auto simp: get_bot_response_def Let_def split: option.splits)

lemma get_bot_response_no_generate:
  assumes "model g = None \<or> tokenizer g = None"
  shows "Generate prompt \<notin> set (snd (get_bot_response lower g sess frm))"
  using assms by (auto simp: get_bot_response_def Let_def split: option.splits)

text \<open>
  C2, as stated, fails: with no model loaded, a request with a session whose message
  is empty after trimming gets the prompt to type something, and one whose message
  holds a crisis phrase gets the safety message.
\<close>

theorem model_unavailable_counterexample:
  "fst (get_bot_response ascii_lower \<lparr>tokenizer = None, model = None\<rparr> [''user_id'' \<mapsto> 1]
        [''msg'' \<mapsto> lit ''  ''])
     = Body please_type_message 200
   \<and> fst (get_bot_response ascii_lower \<lparr>tokenizer = None, model = None\<rparr> [''user_id'' \<mapsto> 1]
        [''msg'' \<mapsto> lit ''I want to die''])
     = Body safety_message 200
   \<and> please_type_message \<noteq> unavailable_message
   \<and> safety_message \<noteq> unavailable_message"
  by (simp add: get_bot_response_def strip_def isspace_def contains_crisis_language_def
      crisis_words_def ascii_lower_def contains_def starts_with_def lit_def
      please_type_message_def safety_message_def unavailable_message_def)

text \<open>
  C2, amended: when the model or the tokenizer is not loaded, a request with a session
  whose trimmed message is not empty and holds no crisis phrase gets the fixed
  unavailability message, and no request reaches generation. A message that is empty
  after trimming is answered by the prompt to type something, and a message with a
  crisis phrase by the safety message, as when the model is loaded.
\<close>

theorem model_unavailable_reply:
  assumes "model g = None \<or> tokenizer g = None"
    and "sess ''user_id'' \<noteq> None"
    and "user_message = strip (case frm ''msg'' of None \<Rightarrow> [] | Some m \<Rightarrow> m)"
  shows "(user_message \<noteq> [] \<and> \<not> contains_crisis_language lower user_message \<longrightarrow>
            get_bot_response lower g sess frm
              = (Body unavailable_message 200,
                 [SessionCheck, ReadMessage, EmptyCheck, CrisisCheck, ModelCheck]))
       \<and> (\<forall>prompt. Generate prompt \<notin> set (snd (get_bot_response lower g sess frm)))
       \<and> (user_message = [] \<longrightarrow>
            fst (get_bot_response lower g sess frm) = Body please_type_message 200)
       \<and> (user_message \<noteq> [] \<and> contains_crisis_language lower user_message \<longrightarrow>
            fst (get_bot_response lower g sess frm) = Body safety_message 200)"
  using assms get_bot_response_no_generate[of g _ lower sess frm]
  by (simp add: get_bot_response_empty get_bot_response_crisis get_bot_response_unavailable)

theorem model_unavailable_reply_witness:
  "get_bot_response ascii_lower
     \<lparr>tokenizer = Some \<lparr>encode = (\<lambda>s. []), decode = (\<lambda>t. [])\<rparr>, model = None\<rparr>
     [''user_id'' \<mapsto> 1] [''msg'' \<mapsto> [0xA0] @ lit ''I want pizza '']
   = (Body unavailable_message 200,
      [SessionCheck, ReadMessage, EmptyCheck, CrisisCheck, ModelCheck])"
proof -
  have msg: "strip ([0xA0] @ lit ''I want pizza '') = lit ''I want pizza''"
    by (simp add: strip_def isspace_def lit_def)
  have calm: "\<not> contains_crisis_language ascii_lower (lit ''I want pizza'')"
    by (rule contains_crisis_language_examples) (simp add: ascii_lower_def lit_def)
  from model_unavailable_reply [of
      "\<lparr>tokenizer = Some \<lparr>encode = (\<lambda>s. []), decode = (\<lambda>t. [])\<rparr>, model = None\<rparr>"
      "[''user_id'' \<mapsto> 1]" "lit ''I want pizza''"
      "[''msg'' \<mapsto> [0xA0] @ lit ''I want pizza '']" ascii_lower]
  show ?thesis
    using msg calm by (simp add: lit_def)
qed

text \<open>
  C3, as stated, fails: for a request with a session, the message is read and trimmed
  and the empty-input check runs before the crisis check, and for a message that is
  empty after trimming the handler answers without running the crisis check.
\<close>

theorem crisis_check_first_counterexample:
  "get_bot_response ascii_lower \<lparr>tokenizer = None, model = None\<rparr> [''user_id'' \<mapsto> 1]
        [''msg'' \<mapsto> lit ''hello'']
     = (Body unavailable_message 200,
        [SessionCheck, ReadMessage, EmptyCheck, CrisisCheck, ModelCheck])
   \<and> get_bot_response ascii_lower \<lparr>tokenizer = None, model = None\<rparr> [''user_id'' \<mapsto> 1]
        [''msg'' \<mapsto> lit ''  '']
     = (Body please_type_message 200, [SessionCheck, ReadMessage, EmptyCheck])"
  by (simp add: get_bot_response_def strip_def isspace_def contains_crisis_language_def
      crisis_words_def ascii_lower_def contains_def starts_with_def lit_def)

text \<open>
  C3, amended: for every request with a session, the handler first reads and trims the
  message and runs the empty-input check; a message that is empty after trimming is
  answered there, with the prompt to type something. Otherwise the crisis check is
  the next step and decides the reply before the model is looked at: a message with a
  crisis phrase gets the safety message whether or not the model is loaded, and a
  message without one goes on to the model-availability check (and gets the
  unavailability message when the model is not loaded), the crisis check having run
  exactly once. No field of the form other than \<open>msg\<close> changes any of this, so a request
  cannot switch the check off.
\<close>

theorem crisis_check_position:
  assumes "sess ''user_id'' \<noteq> None"
    and "user_message = strip (case frm ''msg'' of None \<Rightarrow> [] | Some m \<Rightarrow> m)"
  shows "(user_message = [] \<longrightarrow>
            get_bot_response lower g sess frm
              = (Body please_type_message 200, [SessionCheck, ReadMessage, EmptyCheck]))
       \<and> (user_message \<noteq> [] \<and> contains_crisis_language lower user_message \<longrightarrow>
            get_bot_response lower g sess frm
              = (Body safety_message 200,
                 [SessionCheck, ReadMessage, EmptyCheck, CrisisCheck]))
       \<and> (user_message \<noteq> [] \<and> \<not> contains_crisis_language lower user_message \<longrightarrow>
            (\<exists>rest. snd (get_bot_response lower g sess frm)
                = [SessionCheck, ReadMessage, EmptyCheck, CrisisCheck, ModelCheck] @ rest
              \<and> CrisisCheck \<notin> set rest)
            \<and> (model g = None \<or> tokenizer g = None \<longrightarrow>
                 fst (get_bot_response lower g sess frm) = Body unavailable_message 200))
       \<and> (\<forall>frm2. frm2 ''msg'' = frm ''msg'' \<longrightarrow>
            get_bot_response lower g sess frm2 = get_bot_response lower g sess frm)"
proof (intro conjI impI allI)
  show "get_bot_response lower g sess frm
      = (Body please_type_message 200, [SessionCheck, ReadMessage, EmptyCheck])"
    if "user_message = []"
    using that assms by (simp add: get_bot_response_empty)
  show "get_bot_response lower g sess frm
      = (Body safety_message 200, [SessionCheck, ReadMessage, EmptyCheck, CrisisCheck])"
    if "user_message \<noteq> [] \<and> contains_crisis_language lower user_message"
    using that assms by (simp add: get_bot_response_crisis)
  show "\<exists>rest. snd (get_bot_response lower g sess frm)
                = [SessionCheck, ReadMessage, EmptyCheck, CrisisCheck, ModelCheck] @ rest
              \<and> CrisisCheck \<notin> set rest"
    if "user_message \<noteq> [] \<and> \<not> contains_crisis_language lower user_message"
    using that assms by (intro get_bot_response_no_crisis_steps) simp_all
  show "fst (get_bot_response lower g sess frm) = Body unavailable_message 200"
    if "user_message \<noteq> [] \<and> \<not> contains_crisis_language lower user_message"
      and "model g = None \<or> tokenizer g = None"
    using that assms by (simp add: get_bot_response_unavailable)
  show "get_bot_response lower g sess frm2 = get_bot_response lower g sess frm"
    if "frm2 ''msg'' = frm ''msg''" for frm2
    using that by (simp add: get_bot_response_def)
qed

theorem crisis_check_position_witness:
  "get_bot_response ascii_lower
     \<lparr>tokenizer = Some \<lparr>encode = (\<lambda>s. []), decode = (\<lambda>t. lit ''Serene: hi'')\<rparr>,
      model = Some (\<lambda>x. x)\<rparr>
     [''user_id'' \<mapsto> 1]
     [''msg'' \<mapsto> lit ''I want to die'' @ [0xA0], ''skip_safety'' \<mapsto> lit ''1'']
   = (Body safety_message 200, [SessionCheck, ReadMessage, EmptyCheck, CrisisCheck])
   \<and> get_bot_response ascii_lower \<lparr>tokenizer = None, model = None\<rparr> [''user_id'' \<mapsto> 1]
        [''msg'' \<mapsto> [0xA0]]
     = (Body please_type_message 200, [SessionCheck, ReadMessage, EmptyCheck])
   \<and> fst (get_bot_response ascii_lower \<lparr>tokenizer = None, model = None\<rparr> [''user_id'' \<mapsto> 1]
        [''msg'' \<mapsto> lit ''I want pizza''])
     = Body unavailable_message 200"
proof -
  let ?g = "\<lparr>tokenizer = Some \<lparr>encode = (\<lambda>s. []), decode = (\<lambda>t. lit ''Serene: hi'')\<rparr>,
      model = Some (\<lambda>x. x)\<rparr>"
  have die: "contains_crisis_language ascii_lower (lit ''I want to die'')"
    by (rule contains_crisis_language_examples) (simp add: ascii_lower_def lit_def)
  have calm: "\<not> contains_crisis_language ascii_lower (lit ''I want pizza'')"
    by (rule contains_crisis_language_examples) (simp add: ascii_lower_def lit_def)
  have m1: "strip (lit ''I want to die'' @ [0xA0]) = lit ''I want to die''"
    by (simp add: strip_def isspace_def lit_def)
  have m3: "strip (lit ''I want pizza'') = lit ''I want pizza''"
    by (simp add: strip_def isspace_def lit_def)
  have ne: "lit ''I want to die'' \<noteq> []" "lit ''I want pizza'' \<noteq> []"
    by (simp_all add: lit_def)
  note p1 = crisis_check_position [of "[''user_id'' \<mapsto> 1]" "lit ''I want to die''"
      "[''msg'' \<mapsto> lit ''I want to die'' @ [0xA0]]" ascii_lower ?g]
  have a0: "get_bot_response ascii_lower ?g [''user_id'' \<mapsto> 1]
      [''msg'' \<mapsto> lit ''I want to die'' @ [0xA0]]
      = (Body safety_message 200, [SessionCheck, ReadMessage, EmptyCheck, CrisisCheck])"
    using p1 [THEN conjunct2, THEN conjunct1] m1 die ne by simp
  have "get_bot_response ascii_lower ?g [''user_id'' \<mapsto> 1]
      [''msg'' \<mapsto> lit ''I want to die'' @ [0xA0], ''skip_safety'' \<mapsto> lit ''1'']
      = get_bot_response ascii_lower ?g [''user_id'' \<mapsto> 1]
      [''msg'' \<mapsto> lit ''I want to die'' @ [0xA0]]"
    using p1 [THEN conjunct2, THEN conjunct2, THEN conjunct2, rule_format,
        of "[''msg'' \<mapsto> lit ''I want to die'' @ [0xA0], ''skip_safety'' \<mapsto> lit ''1'']"] m1
    by simp
  with a0 have a: "get_bot_response ascii_lower ?g [''user_id'' \<mapsto> 1]
      [''msg'' \<mapsto> lit ''I want to die'' @ [0xA0], ''skip_safety'' \<mapsto> lit ''1'']
      = (Body safety_message 200, [SessionCheck, ReadMessage, EmptyCheck, CrisisCheck])"
    by (simp only:)
  have b: "get_bot_response ascii_lower \<lparr>tokenizer = None, model = None\<rparr> [''user_id'' \<mapsto> 1]
        [''msg'' \<mapsto> [0xA0]]
     = (Body please_type_message 200, [SessionCheck, ReadMessage, EmptyCheck])"
    using crisis_check_position [of "[''user_id'' \<mapsto> 1]" "[]" "[''msg'' \<mapsto> [0xA0]]"
        ascii_lower "\<lparr>tokenizer = None, model = None\<rparr>", THEN conjunct1]
    by (simp add: strip_def isspace_def)
  have c: "fst (get_bot_response ascii_lower \<lparr>tokenizer = None, model = None\<rparr> [''user_id'' \<mapsto> 1]
        [''msg'' \<mapsto> lit ''I want pizza''])
     = Body unavailable_message 200"
    using crisis_check_position [of "[''user_id'' \<mapsto> 1]" "lit ''I want pizza''"
        "[''msg'' \<mapsto> lit ''I want pizza'']" ascii_lower "\<lparr>tokenizer = None, model = None\<rparr>",
        THEN conjunct2, THEN conjunct2, THEN conjunct1] m3 calm ne
    by simp
  from a b c show ?thesis by (simp only: simp_thms)
qed

end
